theory Spec2Isabelle
  imports Complex_Main "HOL-Library.Multiset"
begin

section \<open>The client store and the request of \<open>PUT /api/v1/clients/:id\<close>\<close>

text \<open>
  The status of a client object: a string, \<open>null\<close> (a row without status) or
  \<open>undefined\<close> (the handler assigns the request's \<open>status\<close> to the object, and the
  request may carry none). The three are different under \<open>===\<close>.
\<close>

datatype js_status = Undefined | Null | Str string

text \<open>
  A row of the table \<open>clients\<close>, and at the same time the JavaScript object that
  \<open>select * from clients\<close> yields for it. A priority is a number; the numbers that occur
  are held as exact rationals, and the one operation of the handler that rounds,
  \<open>priority - 0.5\<close>, is \<open>minus_half\<close> below. The sort compares by the sign of a
  difference, which is the sign of the exact difference.
\<close>

record client =
  client_id :: int
  name :: string
  description :: string
  status :: js_status
  priority :: rat

text \<open>
  The objects of the array \<open>clients\<close> are shared with the arrays
  \<open>clientsWithSameOldStatus\<close> and \<open>clientsWithSameNewStatus\<close> and with the
  variable \<open>client\<close>, and the handler mutates them through all of these. The model keeps
  the objects in a heap, the list of the loaded rows in the order of \<open>clients\<close>; a
  reference is a position in that list, and the other arrays are lists of references.
\<close>

type_synonym heap = "client list"
type_synonym ref = nat

type_synonym messageObj = "string \<times> string"

datatype response = Status400 messageObj | Status200 "client list"

datatype exception = TypeError | ERR_HTTP_HEADERS_SENT

text \<open>
  What one request leaves behind: the answers sent, the exception that left the handler
  if one did, and the rows of the table afterwards.
\<close>

record outcome =
  sent :: "response list"
  thrown :: "exception option"
  store :: "client list"

text \<open>
  \<open>res.status(...).send(...)\<close>: the first call sends the answer; a call on a response
  that has been sent throws.
\<close>

definition res_send :: "response list \<Rightarrow> response \<Rightarrow> response list \<times> exception option" where
  "res_send sent_before r =
     (if sent_before = [] then ([r], None) else (sent_before, Some ERR_HTTP_HEADERS_SENT))"

subsection \<open>Validation\<close>

text \<open>\<open>parseInt\<close> yields an integer or \<open>NaN\<close>; \<open>None\<close> is \<open>NaN\<close>.\<close>

definition validateId :: "client list \<Rightarrow> int option \<Rightarrow> bool \<times> messageObj option" where
  "validateId db i =
     (case i of
        None \<Rightarrow> (False, Some (''Invalid id provided.'', ''Id can only be integer.''))
      | Some n \<Rightarrow>
          (case List.find (\<lambda>c. client_id c = n) db of
             None \<Rightarrow> (False, Some (''Invalid id provided.'', ''Cannot find client with that id.''))
           | Some c \<Rightarrow> (True, None)))"

definition validStatuses :: "string list" where
  "validStatuses = [''backlog'', ''in-progress'', ''complete'']"

definition invalid_status_message :: messageObj where
  "invalid_status_message =
     (''Invalid status provided'',
      ''Status can only be one of the following: [backlog | in-progress | complete]'')"

text \<open>JavaScript truthiness of the two request fields: \<open>undefined\<close>, \<open>null\<close>, the
  empty string and \<open>0\<close> are falsy. The priority of a request is an integer, as the
  comment of the handler has it, or absent.\<close>

fun truthy_status :: "js_status \<Rightarrow> bool" where
  "truthy_status Undefined = False"
| "truthy_status Null = False"
| "truthy_status (Str s) = (s \<noteq> [])"

fun truthy_priority :: "int option \<Rightarrow> bool" where
  "truthy_priority None = False"
| "truthy_priority (Some p) = (p \<noteq> 0)"

text \<open>\<open>validStatuses.includes(status)\<close>\<close>

fun includes_status :: "js_status \<Rightarrow> bool" where
  "includes_status (Str s) = (s \<in> set validStatuses)"
| "includes_status Undefined = False"
| "includes_status Null = False"

text \<open>\<open>clients.find((client) => client.id === id)\<close>, as a reference.\<close>

definition find_client :: "heap \<Rightarrow> int option \<Rightarrow> ref option" where
  "find_client h i =
     (case i of
        None \<Rightarrow> None
      | Some n \<Rightarrow> List.find (\<lambda>r. client_id (h ! r) = n) [0..<length h])"

subsection \<open>The reordering code\<close>

definition MAX_SAFE_INTEGER :: rat where
  "MAX_SAFE_INTEGER = 9007199254740991"

text \<open>
  \<open>priority - 0.5\<close> in binary64 arithmetic, for an integer \<open>priority\<close>. From
  \<open>-2^52 + 1\<close> to \<open>2^52\<close> the difference is a binary64 number. Beyond, the numbers
  next to the difference are integers, and it is rounded to \<open>priority\<close> when that is
  even and to \<open>priority - 1\<close> when it is odd: halfway between two numbers the even
  one is taken, and from \<open>2^53\<close> on only even integers are numbers.
\<close>

definition minus_half :: "int \<Rightarrow> rat" where
  "minus_half p =
     (if - (2 ^ 52) < p \<and> p \<le> 2 ^ 52 then of_int p - 1 / 2
      else if even p then of_int p else of_int p - 1)"

text \<open>\<open>cs.forEach((c, index) => (c.priority = index + 1))\<close>, from a given index on.\<close>

fun renumber :: "nat \<Rightarrow> ref list \<Rightarrow> heap \<Rightarrow> heap" where
  "renumber index [] h = h"
| "renumber index (c # cs) h =
     renumber (index + 1) cs (h[c := (h ! c)\<lparr>priority := of_nat (index + 1)\<rparr>])"

text \<open>\<open>cs.sort((a, b) => a.priority - b.priority)\<close>: the sort of an array is stable,
  as insertion sort by key is.\<close>

definition sort_by_priority :: "heap \<Rightarrow> ref list \<Rightarrow> ref list" where
  "sort_by_priority h cs = sort_key (\<lambda>c. priority (h ! c)) cs"

text \<open>The two groups built by \<open>clients.forEach\<close> before anything is changed.\<close>

definition sameOldStatus :: "heap \<Rightarrow> js_status \<Rightarrow> ref list" where
  "sameOldStatus h oldStatus = filter (\<lambda>c. status (h ! c) = oldStatus) [0..<length h]"

definition sameNewStatus :: "heap \<Rightarrow> js_status \<Rightarrow> js_status \<Rightarrow> ref list" where
  "sameNewStatus h oldStatus newStatus =
     filter (\<lambda>c. status (h ! c) \<noteq> oldStatus \<and> status (h ! c) = newStatus) [0..<length h]"

text \<open>Case 1 of the handler: same status, different priority.\<close>

definition reorder_same_status :: "heap \<Rightarrow> ref \<Rightarrow> int \<Rightarrow> ref list \<Rightarrow> heap \<times> ref list" where
  "reorder_same_status h client p clientsWithSameNewStatus =
     (let h1 = h[client := (h ! client)\<lparr>priority := minus_half p\<rparr>];
          new1 = clientsWithSameNewStatus @ [client];
          new2 = sort_by_priority h1 new1
      in (renumber 0 new2 h1, new2))"

text \<open>Case 2 of the handler: the status changes. The rank of the target is
  \<open>priority ? priority - 0.5 : Number.MAX_SAFE_INTEGER\<close>.\<close>

definition new_rank :: "int option \<Rightarrow> rat" where
  "new_rank p = (if truthy_priority p then (case p of Some q \<Rightarrow> minus_half q | None \<Rightarrow> MAX_SAFE_INTEGER)
                 else MAX_SAFE_INTEGER)"

definition reorder_status_changed ::
  "heap \<Rightarrow> ref \<Rightarrow> js_status \<Rightarrow> int option \<Rightarrow> ref list \<Rightarrow> ref list
     \<Rightarrow> heap \<times> ref list \<times> ref list" where
  "reorder_status_changed h client newStatus p clientsWithSameOldStatus clientsWithSameNewStatus =
     (let h1 = h[client := (h ! client)\<lparr>status := newStatus, priority := new_rank p\<rparr>];
          old1 = filter (\<lambda>c. client_id (h1 ! c) \<noteq> client_id (h1 ! client)) clientsWithSameOldStatus;
          old2 = sort_by_priority h1 old1;
          h2 = renumber 0 old2 h1;
          new1 = clientsWithSameNewStatus @ [client];
          new2 = sort_by_priority h2 new1
      in (renumber 0 new2 h2, old2, new2))"

text \<open>
  Lines 154 to 201: from the loaded objects, the reference of the target and the two
  request fields to the heap after all assignments, and the array \<open>updatedClients\<close>.
\<close>

definition reorder :: "heap \<Rightarrow> ref \<Rightarrow> js_status \<Rightarrow> int option \<Rightarrow> heap \<times> ref list" where
  "reorder h client status_req priority_req =
     (let newStatus = status_req;
          oldStatus = status (h ! client);
          oldPriority = priority (h ! client);
          shouldReorderPriority =
            (truthy_priority priority_req \<and> Some oldPriority \<noteq> map_option of_int priority_req);
          clientsWithSameOldStatus = sameOldStatus h oldStatus;
          clientsWithSameNewStatus = sameNewStatus h oldStatus newStatus;
          (h', old', new') =
            (if oldStatus = newStatus \<and> shouldReorderPriority then
               (case priority_req of
                  Some p \<Rightarrow>
                    (let (h1, new1) = reorder_same_status h client p clientsWithSameNewStatus
                     in (h1, clientsWithSameOldStatus, new1))
                | None \<Rightarrow> (h, clientsWithSameOldStatus, clientsWithSameNewStatus))
             else if oldStatus \<noteq> newStatus then
               reorder_status_changed h client newStatus priority_req
                 clientsWithSameOldStatus clientsWithSameNewStatus
             else (h, clientsWithSameOldStatus, clientsWithSameNewStatus))
      in (h',
          filter (\<lambda>c. status (h' ! c) \<noteq> oldStatus \<and> status (h' ! c) \<noteq> newStatus) [0..<length h']
            @ old' @ new'))"

subsection \<open>The batch update\<close>

text \<open>
  \<open>updateStmt.run(client.status, client.priority, client.id)\<close> for the statement
  \<open>Update clients set status = ?, priority = ? where id = ?\<close>. The driver binds
  \<open>undefined\<close> as \<open>NULL\<close>.
\<close>

fun bind_status :: "js_status \<Rightarrow> js_status" where
  "bind_status Undefined = Null"
| "bind_status Null = Null"
| "bind_status (Str s) = Str s"

definition updateStmt_run :: "client \<Rightarrow> client list \<Rightarrow> client list" where
  "updateStmt_run c rows =
     map (\<lambda>r. if client_id r = client_id c
               then r\<lparr>status := bind_status (status c), priority := priority c\<rparr> else r) rows"

fun run_all :: "client list \<Rightarrow> client list \<Rightarrow> client list" where
  "run_all [] rows = rows"
| "run_all (c # cs) rows = run_all cs (updateStmt_run c rows)"

subsection \<open>The handler\<close>

text \<open>
  \<open>app.put("/api/v1/clients/:id", ...)\<close>. A failed \<open>validateId\<close> sends its answer
  and the handler goes on; with no object for the id, reading \<open>client.status\<close> throws.
\<close>

definition put_client :: "client list \<Rightarrow> int option \<Rightarrow> js_status \<Rightarrow> int option \<Rightarrow> outcome" where
  "put_client db i status_req priority_req =
     (let (valid, messageObj) = validateId db i;
          sent0 = (if \<not> valid then (case messageObj of Some m \<Rightarrow> [Status400 m] | None \<Rightarrow> []) else []);
          clients = db;
          client = find_client clients i
      in if truthy_status status_req \<and> \<not> includes_status status_req
         then (let (sent1, e) = res_send sent0 (Status400 invalid_status_message)
               in \<lparr>sent = sent1, thrown = e, store = db\<rparr>)
         else
           (case client of
              None \<Rightarrow> \<lparr>sent = sent0, thrown = Some TypeError, store = db\<rparr>
            | Some c \<Rightarrow>
                (let (h, updatedClients) = reorder clients c status_req priority_req;
                     db' = run_all (map (\<lambda>r. h ! r) updatedClients) db;
                     (sent1, e) = res_send sent0 (Status200 h)
                 in \<lparr>sent = sent1, thrown = e, store = db'\<rparr>)))"

section \<open>Lanes and dense numbering\<close>

text \<open>The members of a status lane, as references in array order and as objects.\<close>

definition lane_refs :: "heap \<Rightarrow> js_status \<Rightarrow> ref list" where
  "lane_refs h s = filter (\<lambda>c. status (h ! c) = s) [0..<length h]"

definition lane :: "client list \<Rightarrow> js_status \<Rightarrow> client list" where
  "lane cs s = filter (\<lambda>c. status c = s) cs"

text \<open>A lane is densely numbered when its sorted priorities are \<open>1, 2, ..., n\<close>.\<close>

definition dense_lane :: "client list \<Rightarrow> js_status \<Rightarrow> bool" where
  "dense_lane cs s =
     (sort (map priority (lane cs s)) = map of_nat [1..<Suc (length (lane cs s))])"

text \<open>
  The order a status change leaves behind, read off the input: the other members of the
  target's lane by ascending priority, and the members of the requested lane by ascending
  priority with the target behind those whose priority is at most its rank.
\<close>

definition remaining_old :: "heap \<Rightarrow> ref \<Rightarrow> ref list" where
  "remaining_old h c = sort_by_priority h [x\<leftarrow>lane_refs h (status (h ! c)). x \<noteq> c]"

definition new_order :: "heap \<Rightarrow> ref \<Rightarrow> js_status \<Rightarrow> rat \<Rightarrow> ref list" where
  "new_order h c s r =
     [x\<leftarrow>sort_by_priority h (lane_refs h s). priority (h ! x) \<le> r]
       @ c # [x\<leftarrow>sort_by_priority h (lane_refs h s). r < priority (h ! x)]"

section \<open>The scenarios of the specification\<close>

definition scenario_A :: "client list" where
  "scenario_A =
     [\<lparr>client_id = 1, name = ''A'', description = '''', status = Str ''backlog'', priority = 1\<rparr>,
      \<lparr>client_id = 2, name = ''B'', description = '''', status = Str ''backlog'', priority = 2\<rparr>,
      \<lparr>client_id = 3, name = ''C'', description = '''', status = Str ''backlog'', priority = 3\<rparr>]"

definition scenario_B :: "client list" where
  "scenario_B =
     [\<lparr>client_id = 1, name = ''A'', description = '''', status = Str ''backlog'', priority = 1\<rparr>,
      \<lparr>client_id = 2, name = ''B'', description = '''', status = Str ''backlog'', priority = 2\<rparr>,
      \<lparr>client_id = 3, name = ''X'', description = '''', status = Str ''in-progress'', priority = 1\<rparr>]"

text \<open>A store whose in-progress lane holds a priority above \<open>Number.MAX_SAFE_INTEGER\<close>.\<close>

definition scenario_beyond_max :: "client list" where
  "scenario_beyond_max =
     [\<lparr>client_id = 1, name = ''A'', description = '''', status = Str ''backlog'', priority = 1\<rparr>,
      \<lparr>client_id = 2, name = ''X'', description = '''', status = Str ''in-progress'',
        priority = 9007199254740992\<rparr>]"

text \<open>A store whose in-progress client holds a priority just above \<open>2^52\<close>.\<close>

definition scenario_beyond_exact :: "client list" where
  "scenario_beyond_exact =
     [\<lparr>client_id = 1, name = ''A'', description = '''', status = Str ''backlog'', priority = 1\<rparr>,
      \<lparr>client_id = 2, name = ''X'', description = '''', status = Str ''in-progress'',
        priority = 4503599627370498\<rparr>]"

section \<open>Properties of the reordering code\<close>

subsection \<open>Renumbering and sorting\<close>

lemma renumber_length [simp]: "length (renumber k cs h) = length h"
  by (induction cs arbitrary: k h) simp_all

lemma renumber_frame: "i \<notin> set cs \<Longrightarrow> renumber k cs h ! i = h ! i"
  by (induction cs arbitrary: k h) simp_all

lemma list_update_same_upto_priority:
  "(h[c := (h ! c)\<lparr>priority := q\<rparr>] ! i)\<lparr>priority := q'\<rparr> = (h ! i)\<lparr>priority := q'\<rparr>"
proof (cases "c = i \<and> c < length h")
  case True
  then show ?thesis by simp
next
  case False
  then have "h[c := (h ! c)\<lparr>priority := q\<rparr>] ! i = h ! i"
    by (cases "c = i") (simp_all add: list_update_beyond)
  then show ?thesis by simp
qed

lemma renumber_only_priority:
  "(renumber k cs h ! i)\<lparr>priority := q\<rparr> = (h ! i)\<lparr>priority := q\<rparr>"
proof (induction cs arbitrary: k h)
  case Nil
  show ?case by simp
next
  case (Cons c cs)
  show ?case
    by (simp only: renumber.simps Cons.IH list_update_same_upto_priority)
qed

lemma renumber_status [simp]: "status (renumber k cs h ! i) = status (h ! i)"
proof -
  have "status (renumber k cs h ! i) = status ((renumber k cs h ! i)\<lparr>priority := 0\<rparr>)" by simp
  also have "\<dots> = status ((h ! i)\<lparr>priority := 0\<rparr>)" by (simp only: renumber_only_priority)
  finally show ?thesis by simp
qed

lemma renumber_client_id [simp]: "client_id (renumber k cs h ! i) = client_id (h ! i)"
proof -
  have "client_id (renumber k cs h ! i) = client_id ((renumber k cs h ! i)\<lparr>priority := 0\<rparr>)" by simp
  also have "\<dots> = client_id ((h ! i)\<lparr>priority := 0\<rparr>)" by (simp only: renumber_only_priority)
  finally show ?thesis by simp
qed

lemma renumber_priority:
  "distinct cs \<Longrightarrow> j < length cs \<Longrightarrow> cs ! j < length h
     \<Longrightarrow> priority (renumber k cs h ! (cs ! j)) = of_nat (k + j + 1)"
proof (induction cs arbitrary: k h j)
  case Nil
  then show ?case by simp
next
  case (Cons c cs)
  show ?case
  proof (cases j)
    case 0
    with Cons.prems show ?thesis by (simp add: renumber_frame)
  next
    case (Suc j')
    with Cons.prems have "priority (renumber (k + 1) cs (h[c := (h ! c)\<lparr>priority := of_nat (k + 1)\<rparr>]) ! (cs ! j'))
        = of_nat (k + 1 + j' + 1)"
      by (intro Cons.IH) simp_all
    with Suc show ?thesis by simp
  qed
qed

lemma renumber_ranks:
  assumes "distinct cs" and "\<forall>c\<in>set cs. c < length h"
  shows "map (\<lambda>c. priority (renumber 0 cs h ! c)) cs = map of_nat [1..<Suc (length cs)]"
proof (rule nth_equalityI)
  show "length (map (\<lambda>c. priority (renumber 0 cs h ! c)) cs) = length (map (of_nat :: nat \<Rightarrow> rat) [1..<Suc (length cs)])"
    by (simp del: upt_Suc)
next
  fix j assume "j < length (map (\<lambda>c. priority (renumber 0 cs h ! c)) cs)"
  then have j: "j < length cs" by simp
  with assms have "priority (renumber 0 cs h ! (cs ! j)) = of_nat (0 + j + 1)"
    by (intro renumber_priority) simp_all
  with j show "map (\<lambda>c. priority (renumber 0 cs h ! c)) cs ! j = map of_nat [1..<Suc (length cs)] ! j"
    by (simp add: nth_upt del: upt_Suc)
qed

lemma insort_key_before:
  "f a \<le> f t \<Longrightarrow> insort_key f a (A @ t # B) = insort_key f a A @ t # B"
  by (induction A) simp_all

lemma insort_key_after:
  "\<forall>y\<in>set A. f y < f a \<Longrightarrow> insort_key f a (A @ C) = A @ insort_key f a C"
  by (induction A) auto

lemma sort_key_snoc:
  "sort_key f (xs @ [t]) =
     [x\<leftarrow>sort_key f xs. f x \<le> f t] @ t # [x\<leftarrow>sort_key f xs. f t < f x]"
proof (induction xs)
  case Nil
  show ?case by simp
next
  case (Cons a xs)
  let ?S = "sort_key f xs"
  have srt: "sorted (map f ?S)" by simp
  show ?case
  proof (cases "f a \<le> f t")
    case True
    have "sort_key f ((a # xs) @ [t]) = insort_key f a (sort_key f (xs @ [t]))" by simp
    also have "\<dots> = insort_key f a [x\<leftarrow>?S. f x \<le> f t] @ t # [x\<leftarrow>?S. f t < f x]"
      using True by (simp only: Cons.IH insort_key_before)
    also have "insort_key f a [x\<leftarrow>?S. f x \<le> f t] = [x\<leftarrow>insort_key f a ?S. f x \<le> f t]"
      using True srt by (simp add: filter_insort)
    also have "[x\<leftarrow>?S. f t < f x] = [x\<leftarrow>insort_key f a ?S. f t < f x]"
      using True by (simp add: filter_insort_triv)
    finally show ?thesis by simp
  next
    case False
    then have lt: "f t < f a" by simp
    have "sort_key f ((a # xs) @ [t]) = insort_key f a (sort_key f (xs @ [t]))" by simp
    also have "\<dots> = insort_key f a ([x\<leftarrow>?S. f x \<le> f t] @ t # [x\<leftarrow>?S. f t < f x])"
      by (simp only: Cons.IH)
    also have "\<dots> = [x\<leftarrow>?S. f x \<le> f t] @ insort_key f a (t # [x\<leftarrow>?S. f t < f x])"
      using lt by (intro insort_key_after) auto
    also have "\<dots> = [x\<leftarrow>?S. f x \<le> f t] @ t # insort_key f a [x\<leftarrow>?S. f t < f x]"
      using False by simp
    also have "insort_key f a [x\<leftarrow>?S. f t < f x] = [x\<leftarrow>insort_key f a ?S. f t < f x]"
      using lt srt by (simp add: filter_insort)
    also have "[x\<leftarrow>?S. f x \<le> f t] = [x\<leftarrow>insort_key f a ?S. f x \<le> f t]"
      using lt by (simp add: filter_insort_triv)
    finally show ?thesis by simp
  qed
qed

lemma insort_key_agree:
  "f a = g a \<Longrightarrow> \<forall>x\<in>set xs. f x = g x \<Longrightarrow> insort_key f a xs = insort_key g a xs"
  by (induction xs) simp_all

lemma sort_key_agree:
  "\<forall>x\<in>set xs. f x = g x \<Longrightarrow> sort_key f xs = sort_key g xs"
proof (induction xs)
  case Nil
  show ?case by simp
next
  case (Cons a xs)
  then have "sort_key f xs = sort_key g xs" by simp
  moreover have "insort_key f a (sort_key g xs) = insort_key g a (sort_key g xs)"
    using Cons.prems by (intro insort_key_agree) simp_all
  ultimately show ?case by simp
qed


lemma lane_refs_bound: "x \<in> set (lane_refs h s) \<Longrightarrow> x < length h"
  by (simp add: lane_refs_def)

lemma distinct_lane_refs [simp]: "distinct (lane_refs h s)"
  by (simp add: lane_refs_def)

lemma same_id_same_ref:
  assumes "distinct (map client_id h)" and "x < length h" and "c < length h"
  shows "(client_id (h ! x) = client_id (h ! c)) = (x = c)"
proof -
  have "(map client_id h ! x = map client_id h ! c) = (x = c)"
    using assms by (intro nth_eq_iff_index_eq) simp_all
  with assms show ?thesis by simp
qed

lemma status_changed_old2:
  assumes c: "c < length h" and d: "distinct (map client_id h)"
    and h1: "h1 = h[c := (h ! c)\<lparr>status := st, priority := r\<rparr>]"
  shows "sort_by_priority h1
           (filter (\<lambda>x. client_id (h1 ! x) \<noteq> client_id (h1 ! c)) (sameOldStatus h (status (h ! c))))
         = remaining_old h c"
proof -
  let ?L = "lane_refs h (status (h ! c))"
  have "filter (\<lambda>x. client_id (h1 ! x) \<noteq> client_id (h1 ! c)) ?L = filter (\<lambda>x. x \<noteq> c) ?L"
  proof (rule filter_cong [OF refl])
    fix x assume "x \<in> set ?L"
    then have x: "x < length h" by (rule lane_refs_bound)
    have "client_id (h1 ! x) = client_id (h ! x)"
      using x c by (cases "x = c") (simp_all add: h1)
    moreover have "client_id (h1 ! c) = client_id (h ! c)"
      using c by (simp add: h1)
    ultimately show "(client_id (h1 ! x) \<noteq> client_id (h1 ! c)) = (x \<noteq> c)"
      using same_id_same_ref [OF d x c] by simp
  qed
  moreover have "sort_key (\<lambda>x. priority (h1 ! x)) (filter (\<lambda>x. x \<noteq> c) ?L)
      = sort_key (\<lambda>x. priority (h ! x)) (filter (\<lambda>x. x \<noteq> c) ?L)"
    by (rule sort_key_agree) (simp add: h1)
  ultimately show ?thesis
    by (simp add: sameOldStatus_def lane_refs_def remaining_old_def sort_by_priority_def)
qed

lemma set_remaining_old:
  "set (remaining_old h c) = {x. x < length h \<and> status (h ! x) = status (h ! c) \<and> x \<noteq> c}"
  by (auto simp: remaining_old_def sort_by_priority_def lane_refs_def)

lemma distinct_remaining_old [simp]: "distinct (remaining_old h c)"
  by (simp add: remaining_old_def sort_by_priority_def)

lemma status_changed_new2:
  assumes c: "c < length h" and neq: "status (h ! c) \<noteq> st"
    and h1: "h1 = h[c := (h ! c)\<lparr>status := st, priority := r\<rparr>]"
    and h2: "h2 = renumber 0 (remaining_old h c) h1"
  shows "sort_by_priority h2 (sameNewStatus h (status (h ! c)) st @ [c]) = new_order h c st r"
proof -
  let ?D = "lane_refs h st"
  let ?f = "\<lambda>x. priority (h2 ! x)"
  let ?g = "\<lambda>x. priority (h ! x)"
  have D: "sameNewStatus h (status (h ! c)) st = ?D"
    unfolding sameNewStatus_def lane_refs_def using neq by (intro filter_cong) auto
  have c_notin: "c \<notin> set (remaining_old h c)" by (simp add: set_remaining_old)
  have fc: "?f c = r"
    using c c_notin by (simp add: h2 h1 renumber_frame)
  have agree: "\<forall>x\<in>set ?D. ?f x = ?g x"
  proof
    fix x assume x: "x \<in> set ?D"
    then have "status (h ! x) = st" by (simp add: lane_refs_def)
    with neq have "x \<notin> set (remaining_old h c)" and "x \<noteq> c"
      by (auto simp: set_remaining_old)
    then show "?f x = ?g x" by (simp add: h2 h1 renumber_frame)
  qed
  then have srt: "sort_key ?f ?D = sort_key ?g ?D" by (rule sort_key_agree)
  have agree': "\<forall>x\<in>set (sort_key ?g ?D). ?f x = ?g x" using agree by simp
  have "sort_key ?f (?D @ [c]) =
      [x\<leftarrow>sort_key ?f ?D. ?f x \<le> ?f c] @ c # [x\<leftarrow>sort_key ?f ?D. ?f c < ?f x]"
    by (rule sort_key_snoc)
  also have "[x\<leftarrow>sort_key ?f ?D. ?f x \<le> ?f c] = [x\<leftarrow>sort_key ?g ?D. ?g x \<le> r]"
    unfolding srt fc using agree' by (intro filter_cong) simp_all
  also have "[x\<leftarrow>sort_key ?f ?D. ?f c < ?f x] = [x\<leftarrow>sort_key ?g ?D. r < ?g x]"
    unfolding srt fc using agree' by (intro filter_cong) simp_all
  finally show ?thesis
    by (simp add: D sort_by_priority_def new_order_def)
qed

lemma reorder_status_changed_fst:
  assumes c: "c < length h" and neq: "status (h ! c) \<noteq> st" and d: "distinct (map client_id h)"
  shows "fst (reorder h c st pr) =
     renumber 0 (new_order h c st (new_rank pr))
       (renumber 0 (remaining_old h c) (h[c := (h ! c)\<lparr>status := st, priority := new_rank pr\<rparr>]))"
proof -
  define h1 where "h1 = h[c := (h ! c)\<lparr>status := st, priority := new_rank pr\<rparr>]"
  define h2 where "h2 = renumber 0 (remaining_old h c) h1"
  have o: "sort_by_priority h1
           (filter (\<lambda>x. client_id (h1 ! x) \<noteq> client_id (h1 ! c)) (sameOldStatus h (status (h ! c))))
         = remaining_old h c"
    using c d h1_def by (rule status_changed_old2)
  have n: "sort_by_priority h2 (sameNewStatus h (status (h ! c)) st @ [c]) = new_order h c st (new_rank pr)"
    using c neq h1_def h2_def by (rule status_changed_new2)
  have "fst (reorder_status_changed h c st pr (sameOldStatus h (status (h ! c)))
          (sameNewStatus h (status (h ! c)) st))
        = renumber 0 (new_order h c st (new_rank pr)) h2"
    unfolding reorder_status_changed_def Let_def h1_def [symmetric] o h2_def [symmetric] n
    by simp
  then show ?thesis
    using neq by (simp add: reorder_def Let_def split_beta h2_def h1_def)
qed

subsection \<open>What every run of the reordering code keeps\<close>

lemma reorder_shape:
  "fst (reorder h c st pr) = h \<or>
   (\<exists>X Y q. fst (reorder h c st pr) =
        renumber 0 Y (renumber 0 X (h[c := (h ! c)\<lparr>status := st, priority := q\<rparr>]))
      \<and> set X \<subseteq> {x. x < length h \<and> status (h ! x) = status (h ! c)}
      \<and> set Y \<subseteq> {x. x < length h \<and> status (h ! x) = st} \<union> {c})"
proof (cases "status (h ! c) = st")
  case same: True
  show ?thesis
  proof (cases "truthy_priority pr \<and> Some (priority (h ! c)) \<noteq> map_option of_int pr")
    case True
    then obtain p where pr: "pr = Some p" by (cases pr) auto
    let ?h1 = "h[c := (h ! c)\<lparr>status := st, priority := minus_half p\<rparr>]"
    have upd: "(h ! c)\<lparr>priority := minus_half p\<rparr> = (h ! c)\<lparr>status := st, priority := minus_half p\<rparr>"
      using same by simp
    have empty: "sameNewStatus h st st = []"
      by (simp add: sameNewStatus_def)
    have "fst (reorder h c st pr) = renumber 0 (sort_by_priority ?h1 [c]) (renumber 0 [] ?h1)"
      using same True
      by (simp add: reorder_def Let_def split_beta pr reorder_same_status_def empty upd)
    moreover have "set (sort_by_priority ?h1 [c]) \<subseteq> {x. x < length h \<and> status (h ! x) = st} \<union> {c}"
      by (simp add: sort_by_priority_def)
    ultimately show ?thesis by (intro disjI2 exI conjI) (assumption, simp_all)
  next
    case False
    with same have "fst (reorder h c st pr) = h"
      by (auto simp: reorder_def Let_def split_beta)
    then show ?thesis by simp
  qed
next
  case changed: False
  let ?h1 = "h[c := (h ! c)\<lparr>status := st, priority := new_rank pr\<rparr>]"
  let ?X = "sort_by_priority ?h1
      (filter (\<lambda>x. client_id (?h1 ! x) \<noteq> client_id (?h1 ! c)) (sameOldStatus h (status (h ! c))))"
  let ?Y = "sort_by_priority (renumber 0 ?X ?h1) (sameNewStatus h (status (h ! c)) st @ [c])"
  have "fst (reorder h c st pr) = renumber 0 ?Y (renumber 0 ?X ?h1)"
    using changed by (simp add: reorder_def Let_def split_beta reorder_status_changed_def)
  moreover have "set ?X \<subseteq> {x. x < length h \<and> status (h ! x) = status (h ! c)}"
    by (auto simp: sort_by_priority_def sameOldStatus_def)
  moreover have "set ?Y \<subseteq> {x. x < length h \<and> status (h ! x) = st} \<union> {c}"
    by (auto simp: sort_by_priority_def sameNewStatus_def)
  ultimately show ?thesis by (intro disjI2 exI conjI) (assumption+)
qed

lemma reorder_length [simp]: "length (fst (reorder h c st pr)) = length h"
  using reorder_shape [of h c st pr] by auto

lemma nth_update_cases:
  "h[c := x] ! k = (if c = k \<and> c < length h then x else h ! k)"
  by (cases "c < length h") (simp_all add: nth_list_update list_update_beyond not_less)

lemma update_target_client_id:
  "client_id (h[c := (h ! c)\<lparr>status := st, priority := q\<rparr>] ! k) = client_id (h ! k)"
  by (simp add: nth_update_cases)

lemma reorder_client_id [simp]: "client_id (fst (reorder h c st pr) ! k) = client_id (h ! k)"
  using reorder_shape [of h c st pr] by (auto simp: update_target_client_id)

lemma reorder_ids: "map client_id (fst (reorder h c st pr)) = map client_id h"
  by (rule nth_equalityI) simp_all

lemma reorder_status_cases:
  "k < length h \<Longrightarrow>
     status (fst (reorder h c st pr) ! k) = status (h ! k) \<or> status (fst (reorder h c st pr) ! k) = st"
  using reorder_shape [of h c st pr] by (auto simp: nth_update_cases)

lemma reorder_frame:
  assumes "k < length h" and "status (h ! k) \<noteq> status (h ! c)" and "status (h ! k) \<noteq> st"
  shows "fst (reorder h c st pr) ! k = h ! k"
proof -
  from assms have kc: "k \<noteq> c" by auto
  from reorder_shape [of h c st pr] show ?thesis
  proof
    assume "fst (reorder h c st pr) = h"
    then show ?thesis by simp
  next
    assume "\<exists>X Y q. fst (reorder h c st pr) =
        renumber 0 Y (renumber 0 X (h[c := (h ! c)\<lparr>status := st, priority := q\<rparr>]))
      \<and> set X \<subseteq> {x. x < length h \<and> status (h ! x) = status (h ! c)}
      \<and> set Y \<subseteq> {x. x < length h \<and> status (h ! x) = st} \<union> {c}"
    then obtain X Y q where out: "fst (reorder h c st pr) =
        renumber 0 Y (renumber 0 X (h[c := (h ! c)\<lparr>status := st, priority := q\<rparr>]))"
      and X: "set X \<subseteq> {x. x < length h \<and> status (h ! x) = status (h ! c)}"
      and Y: "set Y \<subseteq> {x. x < length h \<and> status (h ! x) = st} \<union> {c}"
      by blast
    from X assms have "k \<notin> set X" by auto
    moreover from Y assms kc have "k \<notin> set Y" by auto
    ultimately show ?thesis using kc by (simp add: out renumber_frame)
  qed
qed

lemma reorder_refs:
  assumes c: "c < length h" and r: "r \<in> set (snd (reorder h c st pr))"
  shows "r < length h"
proof (cases "status (h ! c) = st")
  case same: True
  show ?thesis
  proof (cases "truthy_priority pr \<and> Some (priority (h ! c)) \<noteq> map_option of_int pr")
    case True
    then obtain p where pr: "pr = Some p" by (cases pr) auto
    from r same True have "r \<in> set (sameOldStatus h st) \<or> r = c \<or>
        r \<in> set (sameNewStatus h st st) \<or> r < length h"
      by (simp add: reorder_def Let_def split_beta pr reorder_same_status_def sort_by_priority_def)
        blast
    with c show ?thesis by (auto simp: sameOldStatus_def sameNewStatus_def)
  next
    case False
    with r same have "r \<in> set (sameOldStatus h st) \<or> r \<in> set (sameNewStatus h st st) \<or>
        r \<in> set (filter (\<lambda>x. status (h ! x) \<noteq> st) [0..<length h])"
      by (auto simp: reorder_def Let_def split_beta)
    then show ?thesis by (auto simp: sameOldStatus_def sameNewStatus_def)
  qed
next
  case changed: False
  with r have "r \<in> set (sameOldStatus h (status (h ! c))) \<or> r = c
      \<or> r \<in> set (sameNewStatus h (status (h ! c)) st) \<or> r < length h"
    by (simp add: reorder_def Let_def split_beta reorder_status_changed_def sort_by_priority_def)
      blast
  with c show ?thesis by (auto simp: sameOldStatus_def sameNewStatus_def)
qed

subsection \<open>The handler around it\<close>

lemma find_client_SomeD:
  assumes "find_client db i = Some c"
  shows "c < length db" and "i = Some (client_id (db ! c))"
proof -
  from assms obtain n where i: "i = Some n" by (cases i) (simp_all add: find_client_def)
  with assms have f: "List.find (\<lambda>r. client_id (db ! r) = n) [0..<length db] = Some c"
    by (simp add: find_client_def)
  then obtain j where "j < length [0..<length db]" and "client_id (db ! ([0..<length db] ! j)) = n" and "c = [0..<length db] ! j"
    unfolding find_Some_iff by blast
  then have "c < length db \<and> client_id (db ! c) = n" by simp
  with i show "c < length db" and "i = Some (client_id (db ! c))" by simp_all
qed

lemma validateId_found:
  assumes "find_client db i = Some c"
  shows "validateId db i = (True, None)"
proof -
  from find_client_SomeD [OF assms] have c: "c < length db" and i: "i = Some (client_id (db ! c))" .
  from c have "db ! c \<in> set db" by simp
  then have "List.find (\<lambda>x. client_id x = client_id (db ! c)) db \<noteq> None"
    unfolding find_None_iff by blast
  then show ?thesis by (auto simp: validateId_def i)
qed

lemma validateId_unknown:
  assumes "find_client db i = None"
  shows "\<exists>m. validateId db i = (False, Some m)"
proof (cases i)
  case None
  then show ?thesis by (simp add: validateId_def)
next
  case (Some n)
  with assms have "List.find (\<lambda>r. client_id (db ! r) = n) [0..<length db] = None"
    by (simp add: find_client_def)
  then have no: "\<forall>r<length db. client_id (db ! r) \<noteq> n"
    unfolding find_None_iff by simp
  have "List.find (\<lambda>x. client_id x = n) db = None"
    unfolding find_None_iff using no by (auto simp: in_set_conv_nth)
  then show ?thesis by (simp add: validateId_def Some)
qed

text \<open>The answer to a request for an existing client whose status passes the check.\<close>

lemma put_client_accepts:
  assumes f: "find_client db i = Some c"
    and a: "\<not> (truthy_status st \<and> \<not> includes_status st)"
  shows "put_client db i st pr =
     \<lparr>sent = [Status200 (fst (reorder db c st pr))], thrown = None,
      store = run_all (map (\<lambda>r. fst (reorder db c st pr) ! r) (snd (reorder db c st pr))) db\<rparr>"
proof -
  from a have cond: "(truthy_status st \<and> \<not> includes_status st) = False" by simp
  show ?thesis
    unfolding put_client_def Let_def split_beta cond
    by (simp add: validateId_found [OF f] f res_send_def)
qed

text \<open>The other requests are answered with no client list.\<close>

lemma put_client_rejects:
  assumes "truthy_status st \<and> \<not> includes_status st"
  shows "Status200 body \<notin> set (sent (put_client db i st pr))"
proof (cases "find_client db i")
  case None
  from validateId_unknown [OF None] obtain m where "validateId db i = (False, Some m)" ..
  with assms show ?thesis
    by (simp add: put_client_def Let_def split_beta res_send_def)
next
  case (Some c)
  with assms show ?thesis
    by (simp add: put_client_def Let_def split_beta res_send_def validateId_found [OF Some])
qed

lemma put_client_unknown:
  assumes "find_client db i = None"
  shows "Status200 body \<notin> set (sent (put_client db i st pr))"
proof -
  from validateId_unknown [OF assms] obtain m where "validateId db i = (False, Some m)" ..
  with assms show ?thesis
    by (simp add: put_client_def Let_def split_beta res_send_def)
qed

lemma put_client_sent_200:
  assumes "Status200 body \<in> set (sent (put_client db i st pr))"
  shows "\<exists>c. find_client db i = Some c \<and> body = fst (reorder db c st pr)"
proof (cases "find_client db i")
  case None
  with assms put_client_unknown show ?thesis by blast
next
  case (Some c)
  from assms put_client_rejects have a: "\<not> (truthy_status st \<and> \<not> includes_status st)"
    by blast
  from assms show ?thesis
    by (simp add: put_client_accepts [OF Some a] Some)
qed

lemma valid_status_accepted: "s \<in> set validStatuses \<Longrightarrow> \<not> (truthy_status (Str s) \<and> \<not> includes_status (Str s))"
  by simp

subsection \<open>A status change, lane by lane\<close>

lemma lane_eq_map: "lane h s = map (\<lambda>x. h ! x) (lane_refs h s)"
proof -
  have "filter (\<lambda>c. status c = s) (map (\<lambda>x. h ! x) [0..<length h])
      = map (\<lambda>x. h ! x) (filter (\<lambda>x. status (h ! x) = s) [0..<length h])"
    by (simp add: filter_map comp_def)
  then show ?thesis by (simp add: lane_def lane_refs_def map_nth)
qed

lemma length_lane: "length (lane h s) = length (lane_refs h s)"
  by (simp add: lane_eq_map)

lemma set_lane_refs: "set (lane_refs h s) = {x. x < length h \<and> status (h ! x) = s}"
  by (auto simp: lane_refs_def)

lemma sorted_ranks: "sorted (map (of_nat :: nat \<Rightarrow> rat) [i..<j])"
  by (induction j) (auto simp: sorted_append)

lemma dense_laneI:
  assumes d: "distinct N" and s: "set N = {x. x < length h \<and> status (h ! x) = s}"
    and r: "map (\<lambda>x. priority (h ! x)) N = map of_nat [1..<Suc (length N)]"
  shows "dense_lane h s"
proof -
  have "mset (lane_refs h s) = mset N"
    using d s by (simp add: set_eq_iff_mset_eq_distinct [symmetric] set_lane_refs)
  then have len: "length (lane_refs h s) = length N" by (rule mset_eq_length)
  have "mset (map priority (lane h s)) = image_mset (\<lambda>x. priority (h ! x)) (mset (lane_refs h s))"
    by (simp add: lane_eq_map comp_def)
  also have "\<dots> = image_mset (\<lambda>x. priority (h ! x)) (mset N)"
    by (simp only: \<open>mset (lane_refs h s) = mset N\<close>)
  also have "\<dots> = mset (map (\<lambda>x. priority (h ! x)) N)" by simp
  also have "\<dots> = mset (map of_nat [1..<Suc (length N)])" by (simp only: r)
  finally have "mset (map of_nat [1..<Suc (length N)]) = mset (map priority (lane h s))" by simp
  then have "sort (map priority (lane h s)) = map of_nat [1..<Suc (length N)]"
    by (rule properties_for_sort) (rule sorted_ranks)
  then show ?thesis by (simp add: dense_lane_def length_lane len)
qed

lemma set_new_order:
  "set (new_order h c s r) = insert c {x. x < length h \<and> status (h ! x) = s}"
  by (auto simp: new_order_def sort_by_priority_def set_lane_refs)

lemma distinct_new_order:
  assumes "status (h ! c) \<noteq> s"
  shows "distinct (new_order h c s r)"
proof -
  have "c \<notin> set (lane_refs h s)" using assms by (simp add: set_lane_refs)
  then show ?thesis
    by (auto simp: new_order_def sort_by_priority_def)
qed

lemma length_new_order: "length (new_order h c s r) = Suc (length (lane_refs h s))"
proof -
  let ?L = "sort_by_priority h (lane_refs h s)"
  have "[x\<leftarrow>?L. r < priority (h ! x)] = [x\<leftarrow>?L. \<not> priority (h ! x) \<le> r]"
    by (intro filter_cong) auto
  then have "length (new_order h c s r) =
      Suc (length [x\<leftarrow>?L. priority (h ! x) \<le> r] + length [x\<leftarrow>?L. \<not> priority (h ! x) \<le> r])"
    by (simp add: new_order_def)
  also have "\<dots> = Suc (length ?L)" by (simp only: sum_length_filter_compl)
  finally show ?thesis by (simp add: sort_by_priority_def)
qed

lemma status_changed_status:
  assumes "c < length h" and "status (h ! c) \<noteq> st" and "distinct (map client_id h)"
    and "k < length h"
  shows "status (fst (reorder h c st pr) ! k) = (if k = c then st else status (h ! k))"
  using assms by (simp add: reorder_status_changed_fst nth_update_cases)

lemma status_changed_new_ranks:
  assumes c: "c < length h" and neq: "status (h ! c) \<noteq> st" and d: "distinct (map client_id h)"
  shows "map (\<lambda>x. priority (fst (reorder h c st pr) ! x)) (new_order h c st (new_rank pr))
       = map of_nat [1..<Suc (length (new_order h c st (new_rank pr)))]"
proof -
  have "\<forall>x\<in>set (new_order h c st (new_rank pr)).
      x < length (renumber 0 (remaining_old h c)
        (h[c := (h ! c)\<lparr>status := st, priority := new_rank pr\<rparr>]))"
    using c by (auto simp: set_new_order)
  with distinct_new_order [OF neq] show ?thesis
    unfolding reorder_status_changed_fst [OF c neq d] by (rule renumber_ranks)
qed

lemma status_changed_old_ranks:
  assumes c: "c < length h" and neq: "status (h ! c) \<noteq> st" and d: "distinct (map client_id h)"
  shows "map (\<lambda>x. priority (fst (reorder h c st pr) ! x)) (remaining_old h c)
       = map of_nat [1..<Suc (length (remaining_old h c))]"
proof -
  let ?h1 = "h[c := (h ! c)\<lparr>status := st, priority := new_rank pr\<rparr>]"
  have "map (\<lambda>x. priority (fst (reorder h c st pr) ! x)) (remaining_old h c)
      = map (\<lambda>x. priority (renumber 0 (remaining_old h c) ?h1 ! x)) (remaining_old h c)"
  proof (rule map_cong [OF refl])
    fix x assume "x \<in> set (remaining_old h c)"
    with neq have "x \<notin> set (new_order h c st (new_rank pr))"
      by (auto simp: set_new_order set_remaining_old)
    then show "priority (fst (reorder h c st pr) ! x)
        = priority (renumber 0 (remaining_old h c) ?h1 ! x)"
      by (simp add: reorder_status_changed_fst [OF c neq d] renumber_frame)
  qed
  also have "\<dots> = map of_nat [1..<Suc (length (remaining_old h c))]"
    by (rule renumber_ranks) (auto simp: set_remaining_old)
  finally show ?thesis .
qed

lemma status_changed_new_lane:
  assumes c: "c < length h" and neq: "status (h ! c) \<noteq> st" and d: "distinct (map client_id h)"
  shows "set (new_order h c st r) =
     {x. x < length (fst (reorder h c st pr)) \<and> status (fst (reorder h c st pr) ! x) = st}"
proof -
  have "(status (fst (reorder h c st pr) ! x) = st) = (x = c \<or> status (h ! x) = st)"
    if "x < length h" for x
    using neq by (simp add: status_changed_status [OF c neq d that])
  with c show ?thesis by (auto simp: set_new_order)
qed

lemma status_changed_old_lane:
  assumes c: "c < length h" and neq: "status (h ! c) \<noteq> st" and d: "distinct (map client_id h)"
  shows "lane_refs (fst (reorder h c st pr)) (status (h ! c))
       = [x\<leftarrow>lane_refs h (status (h ! c)). x \<noteq> c]"
proof -
  have "filter (\<lambda>x. status (fst (reorder h c st pr) ! x) = status (h ! c)) [0..<length h]
      = filter (\<lambda>x. status (h ! x) = status (h ! c) \<and> x \<noteq> c) [0..<length h]"
    using neq by (intro filter_cong) (auto simp: status_changed_status [OF c neq d])
  then show ?thesis by (simp add: lane_refs_def)
qed

lemma status_changed_dense_new:
  assumes c: "c < length h" and neq: "status (h ! c) \<noteq> st" and d: "distinct (map client_id h)"
  shows "dense_lane (fst (reorder h c st pr)) st"
  using distinct_new_order [OF neq] status_changed_new_lane [OF c neq d]
    status_changed_new_ranks [OF c neq d]
  by (rule dense_laneI)

lemma status_changed_dense_old:
  assumes c: "c < length h" and neq: "status (h ! c) \<noteq> st" and d: "distinct (map client_id h)"
  shows "dense_lane (fst (reorder h c st pr)) (status (h ! c))"
proof (rule dense_laneI)
  show "distinct (remaining_old h c)" by simp
  have "set (remaining_old h c) = set (lane_refs (fst (reorder h c st pr)) (status (h ! c)))"
    by (auto simp: status_changed_old_lane [OF c neq d] set_remaining_old set_lane_refs)
  then show "set (remaining_old h c) = {x. x < length (fst (reorder h c st pr))
      \<and> status (fst (reorder h c st pr) ! x) = status (h ! c)}"
    by (simp only: set_lane_refs)
  show "map (\<lambda>x. priority (fst (reorder h c st pr) ! x)) (remaining_old h c)
       = map of_nat [1..<Suc (length (remaining_old h c))]"
    using c neq d by (rule status_changed_old_ranks)
qed

lemma status_changed_new_size:
  assumes c: "c < length h" and neq: "status (h ! c) \<noteq> st" and d: "distinct (map client_id h)"
  shows "length (lane (fst (reorder h c st pr)) st) = Suc (length (lane h st))"
proof -
  have "mset (lane_refs (fst (reorder h c st pr)) st) = mset (new_order h c st 0)"
    using distinct_new_order [OF neq, of 0] status_changed_new_lane [OF c neq d, of 0 pr]
    by (simp add: set_eq_iff_mset_eq_distinct [symmetric] set_lane_refs)
  then have "length (lane_refs (fst (reorder h c st pr)) st) = length (new_order h c st 0)"
    by (rule mset_eq_length)
  then show ?thesis by (simp add: length_lane length_new_order)
qed

lemma new_order_last:
  assumes "\<forall>x\<in>set (lane_refs h st). priority (h ! x) \<le> r"
  shows "new_order h c st r = sort_by_priority h (lane_refs h st) @ [c]"
proof -
  let ?L = "sort_by_priority h (lane_refs h st)"
  have "\<forall>x\<in>set ?L. priority (h ! x) \<le> r" using assms by (simp add: sort_by_priority_def)
  then have "[x\<leftarrow>?L. priority (h ! x) \<le> r] = ?L" and "[x\<leftarrow>?L. r < priority (h ! x)] = []"
    by (auto simp: filter_empty_conv not_less)
  then show ?thesis by (simp add: new_order_def)
qed

lemma status_changed_target_rank:
  assumes c: "c < length h" and neq: "status (h ! c) \<noteq> st" and d: "distinct (map client_id h)"
    and o: "new_order h c st (new_rank pr) = A @ c # B"
  shows "priority (fst (reorder h c st pr) ! c) = of_nat (Suc (length A))"
proof -
  let ?f = "\<lambda>x. priority (fst (reorder h c st pr) ! x)"
  have "map ?f (A @ c # B) = map of_nat [1..<Suc (length (A @ c # B))]"
    using status_changed_new_ranks [OF c neq d, of pr] by (simp only: o)
  then have "map ?f (A @ c # B) ! length A = map of_nat [1..<Suc (length (A @ c # B))] ! length A"
    by simp
  then show ?thesis by (simp add: nth_append del: upt_Suc)
qed

lemma status_changed_target_last:
  assumes c: "c < length h" and neq: "status (h ! c) \<noteq> st" and d: "distinct (map client_id h)"
    and le: "\<forall>x\<in>set (lane_refs h st). priority (h ! x) \<le> new_rank pr"
  shows "priority (fst (reorder h c st pr) ! c) = of_nat (length (lane (fst (reorder h c st pr)) st))"
proof -
  have "new_order h c st (new_rank pr) = sort_by_priority h (lane_refs h st) @ c # []"
    using new_order_last [OF le] by simp
  then have "priority (fst (reorder h c st pr) ! c)
      = of_nat (Suc (length (sort_by_priority h (lane_refs h st))))"
    by (rule status_changed_target_rank [OF c neq d])
  moreover have "length (lane (fst (reorder h c st pr)) st) = Suc (length (lane_refs h st))"
    using status_changed_new_size [OF c neq d, of pr] by (simp only: length_lane [of h st])
  ultimately show ?thesis by (simp add: sort_by_priority_def)
qed

lemma half_below_int: "((of_int k :: rat) \<le> of_int P - 1 / 2) = (k < P)"
proof
  assume "(of_int k :: rat) \<le> of_int P - 1 / 2"
  then have "(of_int k :: rat) < of_int P" by simp
  then show "k < P" by simp
next
  assume "k < P"
  then have "k + 1 \<le> P" by simp
  then have "(of_int (k + 1) :: rat) \<le> of_int P" by (simp only: of_int_le_iff)
  then show "(of_int k :: rat) \<le> of_int P - 1 / 2" by simp
qed

lemma half_above_int: "((of_int P :: rat) - 1 / 2 < of_int k) = (P \<le> k)"
  using half_below_int [of k P] by (simp add: not_le [symmetric])

lemma rank_le_int:
  assumes "q \<in> \<int>"
  shows "(q \<le> of_int P - 1 / 2) = (q < (of_int P :: rat))"
    and "((of_int P :: rat) - 1 / 2 < q) = (of_int P \<le> q)"
proof -
  from assms obtain k where q: "q = of_int k" by (auto elim: Ints_cases)
  show "(q \<le> of_int P - 1 / 2) = (q < (of_int P :: rat))"
    by (simp only: q half_below_int of_int_less_iff)
  show "((of_int P :: rat) - 1 / 2 < q) = (of_int P \<le> q)"
    by (simp only: q half_above_int of_int_le_iff)
qed

lemma dense_lane_bound:
  assumes "dense_lane h s" and "x \<in> set (lane_refs h s)"
  shows "priority (h ! x) \<le> of_nat (length (lane h s))"
proof -
  from assms(2) have "priority (h ! x) \<in> set (map priority (lane h s))"
    by (simp add: lane_eq_map)
  also have "set (map priority (lane h s)) = set (sort (map priority (lane h s)))" by simp
  also have "\<dots> = set (map of_nat [1..<Suc (length (lane h s))])"
    using assms(1) by (simp only: dense_lane_def)
  finally obtain k where "priority (h ! x) = of_nat k" and "k \<le> length (lane h s)"
    by auto
  then show ?thesis by simp
qed

lemma length_remaining_old:
  assumes "c < length h"
  shows "length (remaining_old h c) = length (lane h (status (h ! c))) - 1"
proof -
  let ?L = "lane_refs h (status (h ! c))"
  have "c \<in> set ?L" using assms by (simp add: set_lane_refs)
  moreover have "[x\<leftarrow>?L. x \<noteq> c] = [x\<leftarrow>?L. c \<noteq> x]"
    by (rule filter_cong) auto
  then have "[x\<leftarrow>?L. x \<noteq> c] = remove1 c ?L"
    by (simp add: distinct_remove1_removeAll removeAll_filter_not_eq)
  ultimately show ?thesis
    by (simp add: remaining_old_def sort_by_priority_def length_remove1 length_lane)
qed

lemma rank_after_target:
  assumes "map f (A @ c # B) = map (of_nat :: nat \<Rightarrow> rat) [1..<Suc (length (A @ c # B))]"
    and "B \<noteq> []"
  shows "f (hd B) = f c + 1"
proof -
  from assms(2) obtain b B' where B: "B = b # B'" by (cases B) auto
  have "map f (A @ c # b # B') ! length A
      = map (of_nat :: nat \<Rightarrow> rat) [1..<Suc (length (A @ c # b # B'))] ! length A"
    using assms(1) by (simp only: B)
  then have c: "f c = of_nat (Suc (length A))" by (simp add: nth_append del: upt_Suc)
  have "map f (A @ c # b # B') ! Suc (length A)
      = map (of_nat :: nat \<Rightarrow> rat) [1..<Suc (length (A @ c # b # B'))] ! Suc (length A)"
    using assms(1) by (simp only: B)
  then have "f b = of_nat (Suc (Suc (length A)))" by (simp add: nth_append del: upt_Suc)
  with c show ?thesis by (simp add: B)
qed

lemma sorted_hd_least:
  assumes "sorted (map f B)" and "m \<in> set B"
  shows "f (hd B) \<le> f m"
  using assms by (cases B) auto

lemma minus_half_exact:
  "- (2 ^ 52) < P \<Longrightarrow> P \<le> 2 ^ 52 \<Longrightarrow> minus_half P = of_int P - 1 / 2"
  by (simp add: minus_half_def)

lemma minus_half_le: "minus_half P \<le> of_int P"
  by (simp add: minus_half_def)

lemma minus_half_ge: "of_int P - 1 \<le> minus_half P"
  by (simp add: minus_half_def)

lemma rank_below_requested:
  assumes "q \<in> \<int>" and "1 \<le> q" and "P \<le> 2 ^ 52"
  shows "(q \<le> minus_half P) = (q < of_int P)"
proof (cases "- (2 ^ 52) < P")
  case True
  then have "minus_half P = of_int P - 1 / 2" using assms(3) by (rule minus_half_exact)
  with assms(1) show ?thesis by (simp add: rank_le_int)
next
  case False
  then have "P < 1" by simp
  then have "(of_int P :: rat) < 1" by simp
  with assms(2) minus_half_le [of P] show ?thesis by simp
qed

lemma new_order_int:
  assumes "\<forall>x\<in>set (lane_refs h s). (priority (h ! x) \<le> r) = (priority (h ! x) < of_int P)"
  shows "new_order h c s r =
     [x\<leftarrow>sort_by_priority h (lane_refs h s). priority (h ! x) < of_int P]
       @ c # [x\<leftarrow>sort_by_priority h (lane_refs h s). of_int P \<le> priority (h ! x)]"
proof -
  let ?L = "sort_by_priority h (lane_refs h s)"
  have eq: "\<forall>x\<in>set ?L. (priority (h ! x) \<le> r) = (priority (h ! x) < of_int P)"
    using assms by (simp add: sort_by_priority_def)
  have "[x\<leftarrow>?L. priority (h ! x) \<le> r] = [x\<leftarrow>?L. priority (h ! x) < of_int P]"
    using eq by (intro filter_cong) simp_all
  moreover have "[x\<leftarrow>?L. r < priority (h ! x)] = [x\<leftarrow>?L. of_int P \<le> priority (h ! x)]"
    using eq by (intro filter_cong) (simp_all add: not_le [symmetric])
  ultimately show ?thesis by (simp add: new_order_def)
qed

subsection \<open>Requests that repeat the current values\<close>

lemma updateStmt_run_own_row:
  assumes "distinct (map client_id rows)" and "c \<in> set rows" and "status c \<noteq> Undefined"
  shows "updateStmt_run c rows = rows"
proof -
  from assms(3) have s: "bind_status (status c) = status c" by (cases "status c") simp_all
  have inj: "inj_on client_id (set rows)" using assms(1) by (simp add: distinct_map)
  have "map (\<lambda>r. if client_id r = client_id c
                  then r\<lparr>status := status c, priority := priority c\<rparr> else r) rows = rows"
  proof (rule map_idI)
    fix r assume r: "r \<in> set rows"
    show "(if client_id r = client_id c
           then r\<lparr>status := status c, priority := priority c\<rparr> else r) = r"
    proof (cases "client_id r = client_id c")
      case True
      with inj r assms(2) have "r = c" by (auto dest: inj_onD)
      then show ?thesis by simp
    next
      case False
      then show ?thesis by simp
    qed
  qed
  then show ?thesis by (simp only: updateStmt_run_def s)
qed

lemma run_all_own_rows:
  assumes "distinct (map client_id rows)" and "\<forall>c\<in>set cs. c \<in> set rows \<and> status c \<noteq> Undefined"
  shows "run_all cs rows = rows"
  using assms(2)
proof (induction cs)
  case Nil
  show ?case by simp
next
  case (Cons a cs)
  then have "updateStmt_run a rows = rows"
    using assms(1) by (intro updateStmt_run_own_row) simp_all
  with Cons show ?case by simp
qed

text \<open>
  A request that repeats the target's status and priority is answered with the loaded
  list, and the table stays as it was.
\<close>

lemma same_values_change_nothing:
  assumes f: "find_client db i = Some c" and s: "status (db ! c) = Str s"
    and p: "priority (db ! c) = of_int p"
    and v: "s \<in> set validStatuses"
    and d: "distinct (map client_id db)" and u: "\<forall>x\<in>set db. status x \<noteq> Undefined"
  shows "put_client db i (Str s) (Some p) = \<lparr>sent = [Status200 db], thrown = None, store = db\<rparr>"
proof -
  from find_client_SomeD [OF f] have c: "c < length db" by simp
  have out: "fst (reorder db c (Str s) (Some p)) = db"
    using s p by (simp add: reorder_def Let_def split_beta)
  have "\<forall>x\<in>set (map (\<lambda>r. db ! r) (snd (reorder db c (Str s) (Some p)))).
      x \<in> set db \<and> status x \<noteq> Undefined"
  proof
    fix x assume "x \<in> set (map (\<lambda>r. db ! r) (snd (reorder db c (Str s) (Some p))))"
    then obtain r where "r \<in> set (snd (reorder db c (Str s) (Some p)))"
      and x: "x = db ! r" by auto
    with c have "r < length db" by (auto dest: reorder_refs)
    then have "x \<in> set db" by (simp add: x)
    with u show "x \<in> set db \<and> status x \<noteq> Undefined" by simp
  qed
  with d have run: "run_all (map (\<lambda>r. db ! r) (snd (reorder db c (Str s) (Some p)))) db = db"
    by (rule run_all_own_rows)
  from v have a: "\<not> (truthy_status (Str s) \<and> \<not> includes_status (Str s))" by simp
  show ?thesis
    by (simp only: put_client_accepts [OF f a] out run)
qed

section \<open>Requests the handler mishandles\<close>

text \<open>
  C1. A request with neither status nor priority should return the client set unchanged.
  The handler compares the object's status with \<open>undefined\<close>, finds them different and runs
  its case 2: the target gets status \<open>undefined\<close> and priority 1 and the rest of its lane
  is renumbered (here B goes from 2 to 1). The handler answers with this list, and the
  batch update stores it, the target's status as \<open>NULL\<close>.
\<close>

theorem no_change_request_moves_target:
  "put_client scenario_B (Some 1) Undefined None =
     \<lparr>sent = [Status200
        [\<lparr>client_id = 1, name = ''A'', description = '''', status = Undefined, priority = 1\<rparr>,
         \<lparr>client_id = 2, name = ''B'', description = '''', status = Str ''backlog'', priority = 1\<rparr>,
         \<lparr>client_id = 3, name = ''X'', description = '''', status = Str ''in-progress'', priority = 1\<rparr>]],
      thrown = None,
      store =
        [\<lparr>client_id = 1, name = ''A'', description = '''', status = Null, priority = 1\<rparr>,
         \<lparr>client_id = 2, name = ''B'', description = '''', status = Str ''backlog'', priority = 1\<rparr>,
         \<lparr>client_id = 3, name = ''X'', description = '''', status = Str ''in-progress'', priority = 1\<rparr>]\<rparr>"
  by code_simp

text \<open>
  C2. Scenario A: backlog holds A (1), B (2), C (3) and C is moved to priority 1 within
  backlog. The specification expects C = 1, A = 2, B = 3. With the status unchanged the
  group \<open>clientsWithSameNewStatus\<close> is empty, so case 1 sorts and renumbers the target
  alone: the handler answers C = 1 and leaves A = 1, B = 2.
\<close>

theorem same_lane_move_renumbers_only_target:
  "put_client scenario_A (Some 3) (Str ''backlog'') (Some 1) =
     \<lparr>sent = [Status200
        [\<lparr>client_id = 1, name = ''A'', description = '''', status = Str ''backlog'', priority = 1\<rparr>,
         \<lparr>client_id = 2, name = ''B'', description = '''', status = Str ''backlog'', priority = 2\<rparr>,
         \<lparr>client_id = 3, name = ''C'', description = '''', status = Str ''backlog'', priority = 1\<rparr>]],
      thrown = None,
      store =
        [\<lparr>client_id = 1, name = ''A'', description = '''', status = Str ''backlog'', priority = 1\<rparr>,
         \<lparr>client_id = 2, name = ''B'', description = '''', status = Str ''backlog'', priority = 2\<rparr>,
         \<lparr>client_id = 3, name = ''C'', description = '''', status = Str ''backlog'', priority = 1\<rparr>]\<rparr>"
  by code_simp

text \<open>
  C3. Every lane of the output should be densely numbered when the lanes of the input
  are. In scenario A the backlog lane is dense before the request and holds the
  priorities 1, 2, 1 after it: A and C share priority 1 and nobody has priority 3.
\<close>

theorem same_lane_move_breaks_density:
  "dense_lane scenario_A (Str ''backlog'')
   \<and> sent (put_client scenario_A (Some 3) (Str ''backlog'') (Some 1))
       = [Status200 (fst (reorder scenario_A 2 (Str ''backlog'') (Some 1)))]
   \<and> map priority (lane (fst (reorder scenario_A 2 (Str ''backlog'') (Some 1))) (Str ''backlog''))
       = [1, 2, 1]
   \<and> \<not> dense_lane (fst (reorder scenario_A 2 (Str ''backlog'') (Some 1))) (Str ''backlog'')"
  by code_simp

text \<open>
  C4. An id that names no client should end the request at once. The handler sends the
  answer of \<open>validateId\<close> and goes on. With an invalid status it reaches the status check,
  whose answer cannot be sent on the response already sent, and throws there; otherwise
  it throws when it reads \<open>client.status\<close>. The table is not written in either case.
\<close>

theorem unknown_id_is_processed_further:
  "put_client scenario_B (Some 9999) (Str ''done'') None =
     \<lparr>sent = [Status400 (''Invalid id provided.'', ''Cannot find client with that id.'')],
      thrown = Some ERR_HTTP_HEADERS_SENT, store = scenario_B\<rparr>
   \<and> put_client scenario_B (Some 9999) (Str ''backlog'') (Some 1) =
     \<lparr>sent = [Status400 (''Invalid id provided.'', ''Cannot find client with that id.'')],
      thrown = Some TypeError, store = scenario_B\<rparr>"
  by code_simp

section \<open>Validation of the status\<close>

text \<open>
  C7, as the specification states it: every requested status outside the three lane names
  is answered with the invalid-status message and changes nothing. The handler checks the
  status only when it is truthy, and the empty string is not: the request below, for an
  existing client, is answered with the client list and moves the client.
\<close>

theorem empty_status_is_not_rejected:
  "find_client scenario_B (Some 1) = Some 0
   \<and> '''' \<notin> set validStatuses
   \<and> put_client scenario_B (Some 1) (Str '''') None =
     \<lparr>sent = [Status200
        [\<lparr>client_id = 1, name = ''A'', description = '''', status = Str '''', priority = 1\<rparr>,
         \<lparr>client_id = 2, name = ''B'', description = '''', status = Str ''backlog'', priority = 1\<rparr>,
         \<lparr>client_id = 3, name = ''X'', description = '''', status = Str ''in-progress'', priority = 1\<rparr>]],
      thrown = None,
      store =
        [\<lparr>client_id = 1, name = ''A'', description = '''', status = Str '''', priority = 1\<rparr>,
         \<lparr>client_id = 2, name = ''B'', description = '''', status = Str ''backlog'', priority = 1\<rparr>,
         \<lparr>client_id = 3, name = ''X'', description = '''', status = Str ''in-progress'', priority = 1\<rparr>]\<rparr>"
  by code_simp

text \<open>
  C7, amended: for every store, every id of an existing client and every non-empty
  requested status that is not one of backlog, in-progress, complete, the handler answers
  with the invalid-status message only, throws nothing and leaves the table as it was.
\<close>

theorem invalid_status_rejected:
  assumes "find_client db i = Some c" and "s \<noteq> []" and "s \<notin> set validStatuses"
  shows "put_client db i (Str s) pr =
     \<lparr>sent = [Status400 invalid_status_message], thrown = None, store = db\<rparr>"
  using assms by (simp add: put_client_def validateId_found split_beta res_send_def)

theorem invalid_status_rejected_witness:
  "find_client scenario_B (Some 1) = Some 0 \<and> ''done'' \<noteq> [] \<and> ''done'' \<notin> set validStatuses
   \<and> put_client scenario_B (Some 1) (Str ''done'') None =
     \<lparr>sent = [Status400 invalid_status_message], thrown = None, store = scenario_B\<rparr>"
proof -
  have f: "find_client scenario_B (Some 1) = Some 0" by code_simp
  have n: "''done'' \<noteq> []" by simp
  have v: "''done'' \<notin> set validStatuses" by code_simp
  from f n v invalid_status_rejected [OF f n v, of None] show ?thesis by simp
qed

section \<open>What every answer keeps\<close>

text \<open>
  C8. For every request for an existing client, with or without a status and a priority,
  that the status check lets pass, the handler answers with the client list the
  reordering code leaves; and in every client list the handler returns, a client whose
  status is neither the target's status nor the requested one is the object that was
  loaded: its status and its priority (and every other field) are those of the input.
\<close>

theorem other_lanes_untouched:
  assumes "find_client db i = Some c"
    and "k < length db"
    and "status (db ! k) \<noteq> status (db ! c)"
    and "status (db ! k) \<noteq> st"
  shows "(\<not> (truthy_status st \<and> \<not> includes_status st) \<longrightarrow>
            sent (put_client db i st pr) = [Status200 (fst (reorder db c st pr))])
       \<and> (\<forall>body. Status200 body \<in> set (sent (put_client db i st pr)) \<longrightarrow> body ! k = db ! k)"
proof (intro conjI impI allI)
  assume "\<not> (truthy_status st \<and> \<not> includes_status st)"
  with assms(1) show "sent (put_client db i st pr) = [Status200 (fst (reorder db c st pr))]"
    by (simp add: put_client_accepts)
next
  fix body assume "Status200 body \<in> set (sent (put_client db i st pr))"
  then obtain c' where "find_client db i = Some c'" and "body = fst (reorder db c' st pr)"
    using put_client_sent_200 by blast
  with assms(1) have "body = fst (reorder db c st pr)" by simp
  with assms(2-4) show "body ! k = db ! k" by (simp add: reorder_frame)
qed

theorem other_lanes_untouched_witness:
  "find_client scenario_B (Some 1) = Some 0
   \<and> 2 < length scenario_B
   \<and> status (scenario_B ! 2) \<noteq> status (scenario_B ! 0)
   \<and> status (scenario_B ! 2) \<noteq> Undefined
   \<and> sent (put_client scenario_B (Some 1) Undefined None)
       = [Status200 (fst (reorder scenario_B 0 Undefined None))]
   \<and> fst (reorder scenario_B 0 Undefined None) ! 2 = scenario_B ! 2"
proof -
  have f: "find_client scenario_B (Some 1) = Some 0" by code_simp
  have k: "2 < length scenario_B" by code_simp
  have s1: "status (scenario_B ! 2) \<noteq> status (scenario_B ! 0)" by code_simp
  have s2: "status (scenario_B ! 2) \<noteq> Undefined" by code_simp
  have a: "\<not> (truthy_status Undefined \<and> \<not> includes_status Undefined)" by simp
  note t = other_lanes_untouched [OF f k s1 s2, of None]
  from t a have r: "sent (put_client scenario_B (Some 1) Undefined None)
       = [Status200 (fst (reorder scenario_B 0 Undefined None))]" by blast
  then have "Status200 (fst (reorder scenario_B 0 Undefined None))
      \<in> set (sent (put_client scenario_B (Some 1) Undefined None))" by simp
  with t have u: "fst (reorder scenario_B 0 Undefined None) ! 2 = scenario_B ! 2" by blast
  from f k s1 s2 r u show ?thesis by (intro conjI)
qed

text \<open>
  C9. For every request for an existing client, with or without a status and a priority,
  that the status check lets pass, the handler answers with the client list the
  reordering code leaves; and every client list the handler returns has the length of
  the loaded list and the same ids at the same positions: no client is created,
  duplicated or dropped.
\<close>

theorem answer_keeps_clients:
  "(\<forall>c. find_client db i = Some c \<longrightarrow> \<not> (truthy_status st \<and> \<not> includes_status st) \<longrightarrow>
        sent (put_client db i st pr) = [Status200 (fst (reorder db c st pr))])
   \<and> (\<forall>body. Status200 body \<in> set (sent (put_client db i st pr)) \<longrightarrow>
        length body = length db \<and> map client_id body = map client_id db)"
proof (intro conjI impI allI)
  fix c assume "find_client db i = Some c" and "\<not> (truthy_status st \<and> \<not> includes_status st)"
  then show "sent (put_client db i st pr) = [Status200 (fst (reorder db c st pr))]"
    by (simp add: put_client_accepts)
next
  fix body assume "Status200 body \<in> set (sent (put_client db i st pr))"
  then obtain c where b: "body = fst (reorder db c st pr)"
    using put_client_sent_200 by blast
  show "length body = length db" by (simp add: b)
  show "map client_id body = map client_id db" by (simp add: b reorder_ids)
qed

theorem answer_keeps_clients_witness:
  "find_client scenario_B (Some 1) = Some 0
   \<and> sent (put_client scenario_B (Some 1) Undefined (Some 2))
       = [Status200 (fst (reorder scenario_B 0 Undefined (Some 2)))]
   \<and> length (fst (reorder scenario_B 0 Undefined (Some 2))) = length scenario_B
   \<and> map client_id (fst (reorder scenario_B 0 Undefined (Some 2))) = map client_id scenario_B"
proof -
  have f: "find_client scenario_B (Some 1) = Some 0" by code_simp
  have a: "\<not> (truthy_status Undefined \<and> \<not> includes_status Undefined)" by simp
  note t = answer_keeps_clients [of scenario_B "Some 1" Undefined "Some 2"]
  from t f a have r: "sent (put_client scenario_B (Some 1) Undefined (Some 2))
       = [Status200 (fst (reorder scenario_B 0 Undefined (Some 2)))]" by blast
  then have "Status200 (fst (reorder scenario_B 0 Undefined (Some 2)))
      \<in> set (sent (put_client scenario_B (Some 1) Undefined (Some 2)))" by simp
  with t have u: "length (fst (reorder scenario_B 0 Undefined (Some 2))) = length scenario_B
      \<and> map client_id (fst (reorder scenario_B 0 Undefined (Some 2))) = map client_id scenario_B"
    by blast
  from f r u show ?thesis by (intro conjI) (elim conjE, assumption)+
qed

section \<open>Moving a client to another lane\<close>

text \<open>
  C5, as the specification states it: a status change without a priority puts the target
  last in the new lane. The handler gives the target the rank \<open>Number.MAX_SAFE_INTEGER\<close>
  before it sorts, so a member of the new lane with a higher priority stays behind it:
  here A is moved to in-progress and gets rank 1 of 2.
\<close>

theorem target_before_priority_beyond_max:
  "put_client scenario_beyond_max (Some 1) (Str ''in-progress'') None =
     \<lparr>sent = [Status200
        [\<lparr>client_id = 1, name = ''A'', description = '''', status = Str ''in-progress'', priority = 1\<rparr>,
         \<lparr>client_id = 2, name = ''X'', description = '''', status = Str ''in-progress'', priority = 2\<rparr>]],
      thrown = None,
      store =
        [\<lparr>client_id = 1, name = ''A'', description = '''', status = Str ''in-progress'', priority = 1\<rparr>,
         \<lparr>client_id = 2, name = ''X'', description = '''', status = Str ''in-progress'', priority = 2\<rparr>]\<rparr>"
  by code_simp

text \<open>
  C5, amended: for every store with unique ids, every existing target and every valid
  requested status other than the target's, with no priority requested and no member of
  the requested lane above \<open>Number.MAX_SAFE_INTEGER\<close>, the handler returns the client
  list in which the target has the requested status; the target's old lane holds its
  other members and nobody else, and these \<open>n - 1\<close> members taken by ascending previous
  priority (ties in array order) have the priorities \<open>1, ..., n - 1\<close>, so that the
  old lane is densely numbered; the new lane holds its previous members and the target
  and nobody else, and its previous members taken by ascending previous priority (ties in
  array order) and then the target have the priorities \<open>1, ..., n\<close>, so that the new
  lane is densely numbered and the target is last in it, with the number of its members
  as priority.
\<close>

theorem lane_change_appends_target:
  assumes "find_client db i = Some c"
    and "s \<in> set validStatuses"
    and "status (db ! c) \<noteq> Str s"
    and "distinct (map client_id db)"
    and "\<forall>x\<in>set (lane db (Str s)). priority x \<le> MAX_SAFE_INTEGER"
  shows "let out = fst (reorder db c (Str s) None);
             L = sort_by_priority db (lane_refs db (Str s)) in
      sent (put_client db i (Str s) None) = [Status200 out]
    \<and> status (out ! c) = Str s
    \<and> lane_refs out (status (db ! c)) = [x\<leftarrow>lane_refs db (status (db ! c)). x \<noteq> c]
    \<and> length (remaining_old db c) = length (lane db (status (db ! c))) - 1
    \<and> map (\<lambda>x. priority (out ! x)) (remaining_old db c)
        = map of_nat [1..<Suc (length (remaining_old db c))]
    \<and> dense_lane out (status (db ! c))
    \<and> set (lane_refs out (Str s)) = insert c (set L)
    \<and> map (\<lambda>x. priority (out ! x)) (L @ [c]) = map of_nat [1..<Suc (Suc (length L))]
    \<and> dense_lane out (Str s)
    \<and> priority (out ! c) = of_nat (length (lane out (Str s)))"
proof -
  from find_client_SomeD [OF assms(1)] have c: "c < length db" by simp
  note neq = assms(3) and d = assms(4)
  define out where "out = fst (reorder db c (Str s) None)"
  define L where "L = sort_by_priority db (lane_refs db (Str s))"
  have le: "\<forall>x\<in>set (lane_refs db (Str s)). priority (db ! x) \<le> new_rank None"
    using assms(5) by (simp add: lane_eq_map new_rank_def)
  then have last: "priority (out ! c) = of_nat (length (lane out (Str s)))"
    unfolding out_def by (rule status_changed_target_last [OF c neq d])
  have order: "new_order db c (Str s) (new_rank None) = L @ [c]"
    unfolding L_def using le by (rule new_order_last)
  have members: "set (lane_refs out (Str s)) = insert c (set L)"
    using status_changed_new_lane [OF c neq d, of "new_rank None" None]
    by (simp add: order set_lane_refs out_def)
  have "length (L @ [c]) = Suc (length (lane_refs db (Str s)))"
    using length_new_order [of db c "Str s" "new_rank None"] by (simp only: order)
  then have len: "length (L @ [c]) = Suc (length L)" by simp
  have ranks: "map (\<lambda>x. priority (out ! x)) (L @ [c]) = map of_nat [1..<Suc (Suc (length L))]"
    using status_changed_new_ranks [OF c neq d, of None]
    by (simp only: order out_def len)
  have sent: "sent (put_client db i (Str s) None) = [Status200 out]"
    unfolding out_def
    by (simp add: put_client_accepts [OF assms(1) valid_status_accepted [OF assms(2)]])
  have st: "status (out ! c) = Str s"
    using c by (simp add: out_def status_changed_status [OF c neq d])
  have old: "lane_refs out (status (db ! c)) = [x\<leftarrow>lane_refs db (status (db ! c)). x \<noteq> c]"
    unfolding out_def by (rule status_changed_old_lane [OF c neq d])
  have old_ranks: "map (\<lambda>x. priority (out ! x)) (remaining_old db c)
        = map of_nat [1..<Suc (length (remaining_old db c))]"
    unfolding out_def by (rule status_changed_old_ranks [OF c neq d])
  have dense_old: "dense_lane out (status (db ! c))"
    unfolding out_def by (rule status_changed_dense_old [OF c neq d])
  have dense_new: "dense_lane out (Str s)"
    unfolding out_def by (rule status_changed_dense_new [OF c neq d])
  show ?thesis
    unfolding Let_def out_def [symmetric] L_def [symmetric]
    using sent st old length_remaining_old [OF c] old_ranks dense_old members ranks dense_new last
    by (intro conjI) (assumption+)
qed

theorem lane_change_appends_target_witness:
  "find_client scenario_B (Some 1) = Some 0
   \<and> ''in-progress'' \<in> set validStatuses
   \<and> status (scenario_B ! 0) \<noteq> Str ''in-progress''
   \<and> distinct (map client_id scenario_B)
   \<and> sent (put_client scenario_B (Some 1) (Str ''in-progress'') None)
       = [Status200 (fst (reorder scenario_B 0 (Str ''in-progress'') None))]
   \<and> status (fst (reorder scenario_B 0 (Str ''in-progress'') None) ! 0) = Str ''in-progress''
   \<and> priority (fst (reorder scenario_B 0 (Str ''in-progress'') None) ! 0)
       = of_nat (length (lane (fst (reorder scenario_B 0 (Str ''in-progress'') None))
           (Str ''in-progress'')))
   \<and> fst (reorder scenario_B 0 (Str ''in-progress'') None) =
       [\<lparr>client_id = 1, name = ''A'', description = '''', status = Str ''in-progress'', priority = 2\<rparr>,
        \<lparr>client_id = 2, name = ''B'', description = '''', status = Str ''backlog'', priority = 1\<rparr>,
        \<lparr>client_id = 3, name = ''X'', description = '''', status = Str ''in-progress'', priority = 1\<rparr>]"
proof -
  have f: "find_client scenario_B (Some 1) = Some 0" by code_simp
  have v: "''in-progress'' \<in> set validStatuses" by code_simp
  have n: "status (scenario_B ! 0) \<noteq> Str ''in-progress''" by code_simp
  have d: "distinct (map client_id scenario_B)" by code_simp
  have m: "\<forall>x\<in>set (lane scenario_B (Str ''in-progress'')). priority x \<le> MAX_SAFE_INTEGER"
    by (simp add: scenario_B_def lane_def MAX_SAFE_INTEGER_def)
  have e: "fst (reorder scenario_B 0 (Str ''in-progress'') None) =
       [\<lparr>client_id = 1, name = ''A'', description = '''', status = Str ''in-progress'', priority = 2\<rparr>,
        \<lparr>client_id = 2, name = ''B'', description = '''', status = Str ''backlog'', priority = 1\<rparr>,
        \<lparr>client_id = 3, name = ''X'', description = '''', status = Str ''in-progress'', priority = 1\<rparr>]"
    by code_simp
  have r: "status (fst (reorder scenario_B 0 (Str ''in-progress'') None) ! 0) = Str ''in-progress''
      \<and> sent (put_client scenario_B (Some 1) (Str ''in-progress'') None)
       = [Status200 (fst (reorder scenario_B 0 (Str ''in-progress'') None))]
      \<and> priority (fst (reorder scenario_B 0 (Str ''in-progress'') None) ! 0)
       = of_nat (length (lane (fst (reorder scenario_B 0 (Str ''in-progress'') None))
           (Str ''in-progress'')))"
    using lane_change_appends_target [OF f v n d m] unfolding Let_def
    by (intro conjI) (elim conjE, assumption)+
  from r f v n d e show ?thesis by (intro conjI) (elim conjE, assumption)+
qed

text \<open>
  C10. For every store with unique ids whose requested lane is densely numbered, every
  existing target and every valid requested status other than the target's, a requested
  priority above the size of the requested lane plus one puts the target last: the
  handler returns the client list in which the target's priority is the size of its new
  lane, one more than before, and that lane is densely numbered.
\<close>

theorem priority_beyond_lane_appends_target:
  assumes "find_client db i = Some c"
    and "s \<in> set validStatuses"
    and "status (db ! c) \<noteq> Str s"
    and "distinct (map client_id db)"
    and "dense_lane db (Str s)"
    and "int (length (lane db (Str s))) + 1 < P"
  shows "let out = fst (reorder db c (Str s) (Some P)) in
      sent (put_client db i (Str s) (Some P)) = [Status200 out]
    \<and> priority (out ! c) = of_nat (length (lane out (Str s)))
    \<and> length (lane out (Str s)) = Suc (length (lane db (Str s)))
    \<and> dense_lane out (Str s)"
proof -
  from find_client_SomeD [OF assms(1)] have c: "c < length db" by simp
  note neq = assms(3) and d = assms(4)
  from assms(6) have "P \<noteq> 0" by simp
  then have P: "new_rank (Some P) = minus_half P" by (simp add: new_rank_def)
  from assms(6) have "(of_int (int (length (lane db (Str s))) + 1) :: rat) < of_int P"
    by (simp only: of_int_less_iff)
  then have bound: "(of_nat (length (lane db (Str s))) :: rat) < of_int P - 1" by simp
  have "\<forall>x\<in>set (lane_refs db (Str s)). priority (db ! x) \<le> new_rank (Some P)"
  proof
    fix x assume "x \<in> set (lane_refs db (Str s))"
    with assms(5) have "priority (db ! x) \<le> of_nat (length (lane db (Str s)))"
      by (rule dense_lane_bound)
    with bound minus_half_ge [of P] show "priority (db ! x) \<le> new_rank (Some P)"
      unfolding P by linarith
  qed
  then have last: "priority (fst (reorder db c (Str s) (Some P)) ! c)
      = of_nat (length (lane (fst (reorder db c (Str s) (Some P))) (Str s)))"
    by (rule status_changed_target_last [OF c neq d])
  have sent: "sent (put_client db i (Str s) (Some P))
      = [Status200 (fst (reorder db c (Str s) (Some P)))]"
    by (simp add: put_client_accepts [OF assms(1) valid_status_accepted [OF assms(2)]])
  show ?thesis
    unfolding Let_def
    using sent last status_changed_new_size [OF c neq d]
      status_changed_dense_new [OF c neq d]
    by (intro conjI) (assumption+)
qed

theorem priority_beyond_lane_appends_target_witness:
  "find_client scenario_B (Some 1) = Some 0
   \<and> ''in-progress'' \<in> set validStatuses
   \<and> status (scenario_B ! 0) \<noteq> Str ''in-progress''
   \<and> distinct (map client_id scenario_B)
   \<and> dense_lane scenario_B (Str ''in-progress'')
   \<and> int (length (lane scenario_B (Str ''in-progress''))) + 1 < 7
   \<and> sent (put_client scenario_B (Some 1) (Str ''in-progress'') (Some 7))
       = [Status200 (fst (reorder scenario_B 0 (Str ''in-progress'') (Some 7)))]
   \<and> dense_lane (fst (reorder scenario_B 0 (Str ''in-progress'') (Some 7))) (Str ''in-progress'')
   \<and> fst (reorder scenario_B 0 (Str ''in-progress'') (Some 7)) =
       [\<lparr>client_id = 1, name = ''A'', description = '''', status = Str ''in-progress'', priority = 2\<rparr>,
        \<lparr>client_id = 2, name = ''B'', description = '''', status = Str ''backlog'', priority = 1\<rparr>,
        \<lparr>client_id = 3, name = ''X'', description = '''', status = Str ''in-progress'', priority = 1\<rparr>]"
proof -
  have f: "find_client scenario_B (Some 1) = Some 0" by code_simp
  have v: "''in-progress'' \<in> set validStatuses" by code_simp
  have n: "status (scenario_B ! 0) \<noteq> Str ''in-progress''" by code_simp
  have d: "distinct (map client_id scenario_B)" by code_simp
  have dl: "dense_lane scenario_B (Str ''in-progress'')" by code_simp
  have p: "int (length (lane scenario_B (Str ''in-progress''))) + 1 < 7"
    by (simp add: scenario_B_def lane_def)
  have e: "fst (reorder scenario_B 0 (Str ''in-progress'') (Some 7)) =
       [\<lparr>client_id = 1, name = ''A'', description = '''', status = Str ''in-progress'', priority = 2\<rparr>,
        \<lparr>client_id = 2, name = ''B'', description = '''', status = Str ''backlog'', priority = 1\<rparr>,
        \<lparr>client_id = 3, name = ''X'', description = '''', status = Str ''in-progress'', priority = 1\<rparr>]"
    by code_simp
  have r: "sent (put_client scenario_B (Some 1) (Str ''in-progress'') (Some 7))
       = [Status200 (fst (reorder scenario_B 0 (Str ''in-progress'') (Some 7)))]
      \<and> dense_lane (fst (reorder scenario_B 0 (Str ''in-progress'') (Some 7))) (Str ''in-progress'')"
    using priority_beyond_lane_appends_target [OF f v n d dl p] unfolding Let_def
    by (intro conjI) (elim conjE, assumption)+
  from r f v n d dl p e show ?thesis by (intro conjI) (elim conjE, assumption)+
qed

text \<open>
  C6, as the specification states it: a status change with a requested priority \<open>P\<close>
  puts the target right before the member that holds \<open>P\<close>, at the rank \<open>P - 0.5\<close>.
  In the first request X holds \<open>P = 2^52 + 2\<close>: in binary64 arithmetic \<open>P - 0.5\<close> is
  \<open>P\<close>, the target ties with X and the stable sort leaves it behind X. In the second
  request \<open>P\<close> is 0, which is falsy: the handler takes the request for one without
  priority and puts the target last, behind X with its priority 1.
\<close>

theorem target_behind_holder_of_requested_priority:
  "put_client scenario_beyond_exact (Some 1) (Str ''in-progress'') (Some 4503599627370498) =
     \<lparr>sent = [Status200
        [\<lparr>client_id = 1, name = ''A'', description = '''', status = Str ''in-progress'', priority = 2\<rparr>,
         \<lparr>client_id = 2, name = ''X'', description = '''', status = Str ''in-progress'', priority = 1\<rparr>]],
      thrown = None,
      store =
        [\<lparr>client_id = 1, name = ''A'', description = '''', status = Str ''in-progress'', priority = 2\<rparr>,
         \<lparr>client_id = 2, name = ''X'', description = '''', status = Str ''in-progress'', priority = 1\<rparr>]\<rparr>
   \<and> sent (put_client scenario_B (Some 1) (Str ''in-progress'') (Some 0)) =
     [Status200
        [\<lparr>client_id = 1, name = ''A'', description = '''', status = Str ''in-progress'', priority = 2\<rparr>,
         \<lparr>client_id = 2, name = ''B'', description = '''', status = Str ''backlog'', priority = 1\<rparr>,
         \<lparr>client_id = 3, name = ''X'', description = '''', status = Str ''in-progress'', priority = 1\<rparr>]]"
  by code_simp

text \<open>
  C6, amended: for every store with unique ids whose requested lane holds positive
  integer priorities, every existing target, every valid requested status other than
  the target's and every requested integer priority \<open>P\<close> other than 0 and at most
  \<open>2^52\<close>, the handler returns the client list in which the target has the requested
  status; the new lane holds its previous members and the target and nobody else, and is
  numbered \<open>1, ..., n\<close> along this order: its previous members below \<open>P\<close> by
  ascending previous priority, the target, its previous members from \<open>P\<close> on by
  ascending previous priority (ties in array order). So the new lane is densely numbered,
  and when a member held priority \<open>P\<close>, a member that held it comes right after the
  target.
\<close>

theorem lane_change_inserts_target:
  assumes "find_client db i = Some c"
    and "s \<in> set validStatuses"
    and "status (db ! c) \<noteq> Str s"
    and "distinct (map client_id db)"
    and "\<forall>x\<in>set (lane db (Str s)). priority x \<in> \<int> \<and> 1 \<le> priority x"
    and "P \<noteq> 0"
    and "P \<le> 2 ^ 52"
  shows "let out = fst (reorder db c (Str s) (Some P));
             L = sort_by_priority db (lane_refs db (Str s)) in
      sent (put_client db i (Str s) (Some P)) = [Status200 out]
    \<and> status (out ! c) = Str s
    \<and> set (lane_refs out (Str s)) = insert c (set L)
    \<and> map (\<lambda>x. priority (out ! x))
         ([x\<leftarrow>L. priority (db ! x) < of_int P] @ c # [x\<leftarrow>L. of_int P \<le> priority (db ! x)])
        = map of_nat [1..<Suc (Suc (length L))]
    \<and> dense_lane out (Str s)
    \<and> (\<forall>m\<in>set L. priority (db ! m) = of_int P \<longrightarrow>
          (\<exists>m'\<in>set L. priority (db ! m') = of_int P
             \<and> priority (out ! m') = priority (out ! c) + 1))"
proof -
  from find_client_SomeD [OF assms(1)] have c: "c < length db" by simp
  note neq = assms(3) and d = assms(4)
  define out where "out = fst (reorder db c (Str s) (Some P))"
  define L where "L = sort_by_priority db (lane_refs db (Str s))"
  define A where "A = [x\<leftarrow>L. priority (db ! x) < of_int P]"
  define B where "B = [x\<leftarrow>L. of_int P \<le> priority (db ! x)]"
  have rank: "new_rank (Some P) = minus_half P"
    using assms(6) by (simp add: new_rank_def)
  have "\<forall>x\<in>set (lane_refs db (Str s)).
      (priority (db ! x) \<le> minus_half P) = (priority (db ! x) < of_int P)"
  proof
    fix x assume "x \<in> set (lane_refs db (Str s))"
    then have "db ! x \<in> set (lane db (Str s))" by (simp add: lane_eq_map)
    with assms(5) have "priority (db ! x) \<in> \<int>" and "1 \<le> priority (db ! x)" by simp_all
    then show "(priority (db ! x) \<le> minus_half P) = (priority (db ! x) < of_int P)"
      using assms(7) by (rule rank_below_requested)
  qed
  then have order: "new_order db c (Str s) (new_rank (Some P)) = A @ c # B"
    unfolding rank A_def B_def L_def by (rule new_order_int)
  have members: "set (lane_refs out (Str s)) = insert c (set L)"
    using status_changed_new_lane [OF c neq d, of 0 "Some P"]
    by (simp add: set_new_order set_lane_refs out_def L_def sort_by_priority_def)
  have len: "length (A @ c # B) = Suc (length L)"
    using length_new_order [of db c "Str s" "new_rank (Some P)"]
    by (simp only: order L_def sort_by_priority_def length_sort)
  have ranks: "map (\<lambda>x. priority (out ! x)) (A @ c # B) = map of_nat [1..<Suc (length (A @ c # B))]"
    using status_changed_new_ranks [OF c neq d, of "Some P"]
    by (simp only: order out_def)
  have sent: "sent (put_client db i (Str s) (Some P)) = [Status200 out]"
    unfolding out_def
    by (simp add: put_client_accepts [OF assms(1) valid_status_accepted [OF assms(2)]])
  have st: "status (out ! c) = Str s"
    using c by (simp add: out_def status_changed_status [OF c neq d])
  have ranks': "map (\<lambda>x. priority (out ! x)) (A @ c # B) = map of_nat [1..<Suc (Suc (length L))]"
    using ranks by (simp only: len)
  have holder: "\<forall>m\<in>set L. priority (db ! m) = of_int P \<longrightarrow>
          (\<exists>m'\<in>set L. priority (db ! m') = of_int P
             \<and> priority (out ! m') = priority (out ! c) + 1)"
  proof (intro ballI impI)
    fix m assume m: "m \<in> set L" and pm: "priority (db ! m) = of_int P"
    then have mB: "m \<in> set B" by (simp add: B_def)
    then have ne: "B \<noteq> []" by auto
    then have hB: "hd B \<in> set B" by simp
    have "sorted (map (\<lambda>x. priority (db ! x)) L)"
      by (simp add: L_def sort_by_priority_def)
    then have "sorted (map (\<lambda>x. priority (db ! x)) B)"
      unfolding B_def by (rule sorted_filter)
    then have "priority (db ! hd B) \<le> priority (db ! m)"
      using mB by (rule sorted_hd_least)
    moreover from hB have "of_int P \<le> priority (db ! hd B)" by (simp add: B_def)
    ultimately have "priority (db ! hd B) = of_int P" using pm by simp
    moreover from hB have "hd B \<in> set L" by (simp add: B_def)
    moreover have "priority (out ! hd B) = priority (out ! c) + 1"
      using ranks ne by (rule rank_after_target)
    ultimately show "\<exists>m'\<in>set L. priority (db ! m') = of_int P
        \<and> priority (out ! m') = priority (out ! c) + 1"
      by blast
  qed
  have dense: "dense_lane out (Str s)"
    unfolding out_def by (rule status_changed_dense_new [OF c neq d])
  show ?thesis
    unfolding Let_def out_def [symmetric] L_def [symmetric] A_def [symmetric] B_def [symmetric]
    using sent st members ranks' dense holder by (intro conjI) (assumption+)
qed

theorem lane_change_inserts_target_witness:
  "find_client scenario_B (Some 1) = Some 0
   \<and> ''in-progress'' \<in> set validStatuses
   \<and> status (scenario_B ! 0) \<noteq> Str ''in-progress''
   \<and> distinct (map client_id scenario_B)
   \<and> (1 :: int) \<noteq> 0
   \<and> (1 :: int) \<le> 2 ^ 52
   \<and> sent (put_client scenario_B (Some 1) (Str ''in-progress'') (Some 1))
       = [Status200 (fst (reorder scenario_B 0 (Str ''in-progress'') (Some 1)))]
   \<and> dense_lane (fst (reorder scenario_B 0 (Str ''in-progress'') (Some 1))) (Str ''in-progress'')
   \<and> fst (reorder scenario_B 0 (Str ''in-progress'') (Some 1)) =
       [\<lparr>client_id = 1, name = ''A'', description = '''', status = Str ''in-progress'', priority = 1\<rparr>,
        \<lparr>client_id = 2, name = ''B'', description = '''', status = Str ''backlog'', priority = 1\<rparr>,
        \<lparr>client_id = 3, name = ''X'', description = '''', status = Str ''in-progress'', priority = 2\<rparr>]"
proof -
  have f: "find_client scenario_B (Some 1) = Some 0" by code_simp
  have v: "''in-progress'' \<in> set validStatuses" by code_simp
  have n: "status (scenario_B ! 0) \<noteq> Str ''in-progress''" by code_simp
  have d: "distinct (map client_id scenario_B)" by code_simp
  have z: "\<forall>x\<in>set (lane scenario_B (Str ''in-progress'')). priority x \<in> \<int> \<and> 1 \<le> priority x"
    by (simp add: scenario_B_def lane_def)
  have p0: "(1 :: int) \<noteq> 0" by simp
  have p1: "(1 :: int) \<le> 2 ^ 52" by simp
  have e: "fst (reorder scenario_B 0 (Str ''in-progress'') (Some 1)) =
       [\<lparr>client_id = 1, name = ''A'', description = '''', status = Str ''in-progress'', priority = 1\<rparr>,
        \<lparr>client_id = 2, name = ''B'', description = '''', status = Str ''backlog'', priority = 1\<rparr>,
        \<lparr>client_id = 3, name = ''X'', description = '''', status = Str ''in-progress'', priority = 2\<rparr>]"
    by code_simp
  have r: "sent (put_client scenario_B (Some 1) (Str ''in-progress'') (Some 1))
       = [Status200 (fst (reorder scenario_B 0 (Str ''in-progress'') (Some 1)))]
      \<and> dense_lane (fst (reorder scenario_B 0 (Str ''in-progress'') (Some 1))) (Str ''in-progress'')"
    using lane_change_inserts_target [OF f v n d z p0 p1] unfolding Let_def
    by (intro conjI) (elim conjE, assumption)+
  from r f v n d p0 p1 e show ?thesis by (intro conjI) (elim conjE, assumption)+
qed

end
